theory Spec2Isabelle
  imports Main "HOL-Library.Sublist"
begin

text \<open>
  A model of \<open>app.py\<close>, the loop that turns incident tickets into proposed Ansible
  playbooks: it polls the ticketing backend for the latest incident, looks for an
  existing playbook that matches, and otherwise has a playbook generated, publishes it
  as a pull request and updates the ticket. The functions of the program are translated
  one by one; what the outside world answers in a cycle is a parameter (\<open>env\<close>), and a
  run gives the trace of what the program logged and sent.
\<close>

section \<open>Python strings\<close>

text \<open>
  A Python \<open>str\<close> is modelled as a \<open>string\<close>: a list of characters with code points
  below 256. \<open>isspace\<close> is \<open>str.isspace\<close> on that range, \<open>strip\<close> is \<open>str.strip()\<close>
  without argument, \<open>lower\<close> is \<open>str.lower()\<close>, \<open>replace\<close> is \<open>str.replace(old, new)\<close>.
  The substring test \<open>a in b\<close> is \<open>sublist a b\<close>, \<open>b.endswith(a)\<close> is \<open>suffix a b\<close>.
\<close>

definition isspace :: "char \<Rightarrow> bool" where
  "isspace c = (of_char c \<in> set [9, 10, 11, 12, 13, 28, 29, 30, 31, 32, 133, 160 :: nat])"

definition strip :: "string \<Rightarrow> string" where
  "strip s = rev (dropWhile isspace (rev (dropWhile isspace s)))"

definition lower_char :: "char \<Rightarrow> char" where
  "lower_char c =
     (let n = (of_char c :: nat)
      in if (65 \<le> n \<and> n \<le> 90) \<or> (192 \<le> n \<and> n \<le> 222 \<and> n \<noteq> 215)
         then char_of (n + 32) else c)"

definition lower :: "string \<Rightarrow> string" where
  "lower s = map lower_char s"

text \<open>
  \<open>replace_scan\<close> is the left-to-right scan of \<open>str.replace\<close> for a non-empty pattern:
  at each position, an occurrence of \<open>old\<close> is replaced and the scan resumes after it.
  For the empty pattern Python inserts \<open>new\<close> before every character and at the end.
\<close>

function replace_scan :: "string \<Rightarrow> string \<Rightarrow> string \<Rightarrow> string" where
  "replace_scan old new [] = []"
| "replace_scan old new (c # cs) =
     (if old \<noteq> [] \<and> prefix old (c # cs)
      then new @ replace_scan old new (drop (length old) (c # cs))
      else c # replace_scan old new cs)"
  by pat_completeness auto
termination
  by (relation "measure (\<lambda>(old, new, s). length s)") auto

definition replace :: "string \<Rightarrow> string \<Rightarrow> string \<Rightarrow> string" where
  "replace s old new =
     (if old = [] then new @ concat (map (\<lambda>c. c # new) s) else replace_scan old new s)"

section \<open>Python values, exceptions and HTTP responses\<close>

text \<open>
  The values that reach the program from JSON bodies and from the completion API.
  \<open>JNull\<close> is Python's \<open>None\<close>; numbers are integers; \<open>JObj\<close> holds a dict as an
  association list in which the first binding of a key is the one that counts.
\<close>

datatype json =
    JNull
  | JBool bool
  | JNum int
  | JStr string
  | JArr "json list"
  | JObj "(string \<times> json) list"

text \<open>
  The exceptions that the library calls and the operations on values raise. All are
  subclasses of \<open>Exception\<close>; what stops the process (\<open>KeyboardInterrupt\<close>,
  \<open>SystemExit\<close>) is no part of a run.
\<close>

datatype exn =
    HTTPError
  | ConnectionError
  | JSONDecodeError
  | KeyError
  | IndexError
  | TypeError
  | AttributeError
  | OpenAIError
  | GitCommandError
  | OSError

text \<open>Truth value of a Python object, as tested by \<open>if x:\<close> and \<open>if not x:\<close>.\<close>

fun truthy :: "json \<Rightarrow> bool" where
  "truthy JNull = False"
| "truthy (JBool b) = b"
| "truthy (JNum n) = (n \<noteq> 0)"
| "truthy (JStr s) = (s \<noteq> [])"
| "truthy (JArr xs) = (xs \<noteq> [])"
| "truthy (JObj kvs) = (kvs \<noteq> [])"

text \<open>The same for a value that is a string or \<open>None\<close>.\<close>

fun truthy_str :: "string option \<Rightarrow> bool" where
  "truthy_str None = False"
| "truthy_str (Some s) = (s \<noteq> [])"

text \<open>\<open>x.get(key, default)\<close>: only a dict has the method.\<close>

fun dict_get :: "json \<Rightarrow> string \<Rightarrow> json \<Rightarrow> exn + json" where
  "dict_get (JObj kvs) key dflt = Inr (case map_of kvs key of None \<Rightarrow> dflt | Some v \<Rightarrow> v)"
| "dict_get _ key dflt = Inl AttributeError"

text \<open>\<open>x[key]\<close> with a string key.\<close>

fun subscript_key :: "json \<Rightarrow> string \<Rightarrow> exn + json" where
  "subscript_key (JObj kvs) key = (case map_of kvs key of None \<Rightarrow> Inl KeyError | Some v \<Rightarrow> Inr v)"
| "subscript_key _ key = Inl TypeError"

text \<open>\<open>x[0]\<close>.\<close>

fun subscript_0 :: "json \<Rightarrow> exn + json" where
  "subscript_0 (JArr []) = Inl IndexError"
| "subscript_0 (JArr (v # vs)) = Inr v"
| "subscript_0 (JStr []) = Inl IndexError"
| "subscript_0 (JStr (c # cs)) = Inr (JStr [c])"
| "subscript_0 (JObj kvs) = Inl KeyError"
| "subscript_0 _ = Inl TypeError"

text \<open>\<open>x.strip()\<close>: only a string has the method.\<close>

fun str_strip :: "json \<Rightarrow> exn + string" where
  "str_strip (JStr s) = Inr (strip s)"
| "str_strip _ = Inl AttributeError"

record http_response =
  status_code :: int
  json_body :: "exn + json"
  body_text :: string

text \<open>\<open>response.raise_for_status()\<close> raises \<open>HTTPError\<close> for a 4xx or 5xx status.\<close>

definition raise_for_status :: "http_response \<Rightarrow> exn + unit" where
  "raise_for_status response =
     (if 400 \<le> status_code response \<and> status_code response < 600 then Inl HTTPError else Inr ())"

text \<open>Sequencing of operations that may raise.\<close>

definition and_then :: "exn + 'a \<Rightarrow> ('a \<Rightarrow> exn + 'b) \<Rightarrow> exn + 'b" where
  "and_then r f = (case r of Inl x \<Rightarrow> Inl x | Inr v \<Rightarrow> f v)"

section \<open>Effects: log lines, outbound requests, the local working directories\<close>

text \<open>
  An event is a log line or a call that changes the outside world (the PATCH to the
  ticketing backend, the playbook file written, the push, the POST to the hosting
  provider, the sleep); the event of a call is recorded when the call is made, whatever
  it answers. Queries (the GET, the completion calls) and the other git steps are
  answered by the environment of the cycle and leave no event of their own.
\<close>

datatype event =
    Log_cycle_start
  | Log_sn_call
  | Log_sn_status int
  | Log_sn_response json
  | Log_http_error exn
  | Log_other_error exn
  | Log_no_incidents
  | Log_no_description
  | Log_searching
  | Log_found_existing
  | Log_generating json
  | Log_generated string
  | Log_cloning
  | Log_creating_branch string
  | Write_playbook string string
  | Git_push string
  | Log_creating_pr string
  | Http_post string
  | Log_pr_status int
  | Log_pr_rejected string
  | Log_pr_created json
  | Log_pr_failed
  | Log_updating json string
  | Http_patch json string "string option"
  | Log_update_status int
  | Log_update_ok
  | Log_update_http_error exn
  | Log_update_other_error exn
  | Log_cycle_error exn
  | Sleep nat

text \<open>
  The two local directories: \<open>repo_dir\<close> is \<open>os.path.isdir('repo')\<close>, \<open>playbooks_dir\<close> is
  \<open>os.path.isdir('existing_playbooks')\<close>.
\<close>

record fs =
  repo_dir :: bool
  playbooks_dir :: bool

datatype git_step =
    Clone
  | Open_repo
  | Create_head
  | Checkout
  | Write_file
  | Index_add
  | Index_commit
  | Remote_origin
  | Push

text \<open>
  The environment of one cycle: what each external call answers when the cycle makes it.
  \<open>Inl\<close> is the exception the call raises.
\<close>

record env =
  sn_get :: "exn + http_response"
  sn_patch :: "exn + http_response"
  playbooks_clone :: "exn + unit"
  playbook_files :: "(string \<times> (exn + string)) list"
  chat_evaluate :: "json \<Rightarrow> string \<Rightarrow> exn + json"
  chat_generate :: "json \<Rightarrow> exn + json"
  now :: string
  git :: "git_step \<Rightarrow> exn + unit"
  pr_post :: "exn + http_response"

text \<open>
  A program takes the directories and gives its outcome (the exception raised or the
  value returned), the events it produced in order, and the directories afterwards.
\<close>

type_synonym 'a prog = "fs \<Rightarrow> (exn + 'a) \<times> event list \<times> fs"

fun outcome :: "(exn + 'a) \<times> event list \<times> fs \<Rightarrow> exn + 'a" where
  "outcome (r, evs, s) = r"

fun events :: "(exn + 'a) \<times> event list \<times> fs \<Rightarrow> event list" where
  "events (r, evs, s) = evs"

fun final_fs :: "(exn + 'a) \<times> event list \<times> fs \<Rightarrow> fs" where
  "final_fs (r, evs, s) = s"

definition ret :: "'a \<Rightarrow> 'a prog" where
  "ret v = (\<lambda>s. (Inr v, [], s))"

definition lift :: "exn + 'a \<Rightarrow> 'a prog" where
  "lift r = (\<lambda>s. (r, [], s))"

definition emit :: "event \<Rightarrow> unit prog" where
  "emit ev = (\<lambda>s. (Inr (), [ev], s))"

definition modify :: "(fs \<Rightarrow> fs) \<Rightarrow> unit prog" where
  "modify f = (\<lambda>s. (Inr (), [], f s))"

text \<open>\<open>m\<close>, then \<open>f\<close> on its value; an exception of \<open>m\<close> skips \<open>f\<close>.\<close>

definition seq :: "'a prog \<Rightarrow> ('a \<Rightarrow> 'b prog) \<Rightarrow> 'b prog" where
  "seq m f = (\<lambda>s. case m s of
       (Inl x, evs, s') \<Rightarrow> (Inl x, evs, s')
     | (Inr v, evs, s') \<Rightarrow> (case f v s' of (r, evs', s'') \<Rightarrow> (r, evs @ evs', s'')))"

text \<open>\<open>try: m  except Exception as x: h x\<close>.\<close>

definition try_except :: "'a prog \<Rightarrow> (exn \<Rightarrow> 'a prog) \<Rightarrow> 'a prog" where
  "try_except m h = (\<lambda>s. case m s of
       (Inl x, evs, s') \<Rightarrow> (case h x s' of (r, evs', s'') \<Rightarrow> (r, evs @ evs', s''))
     | (Inr v, evs, s') \<Rightarrow> (Inr v, evs, s'))"

text \<open>
  \<open>try: m  finally: fin\<close>. The \<open>finally\<close> block runs on every exit of \<open>m\<close>; the outcome
  is that of \<open>m\<close> unless the block itself raises.
\<close>

definition try_finally :: "'a prog \<Rightarrow> unit prog \<Rightarrow> 'a prog" where
  "try_finally m fin = (\<lambda>s. case m s of
       (r, evs, s') \<Rightarrow> (case fin s' of
           (Inl x, evs', s'') \<Rightarrow> (Inl x, evs @ evs', s'')
         | (Inr u, evs', s'') \<Rightarrow> (r, evs @ evs', s'')))"

section \<open>The program\<close>

definition AWAITING_USER_INFO_STATE_ID :: string where
  "AWAITING_USER_INFO_STATE_ID = ''your_awaiting_user_info_state_id''"

definition EXISTING_PLAYBOOKS_REPO_URL :: string where
  "EXISTING_PLAYBOOKS_REPO_URL = ''https://github.com/cooktheryan/existing-playbooks.git''"

subsection \<open>get_most_recent_incident\<close>

text \<open>
  Both handlers log and fall off the end of the function, which then returns \<open>None\<close>.
\<close>

definition get_most_recent_incident :: "env \<Rightarrow> json prog" where
  "get_most_recent_incident e =
     seq (emit Log_sn_call) (\<lambda>_.
     try_except
       (seq (lift (sn_get e)) (\<lambda>response.
        seq (emit (Log_sn_status (status_code response))) (\<lambda>_.
        seq (lift (raise_for_status response)) (\<lambda>_.
        seq (lift (json_body response)) (\<lambda>body.
        seq (lift (dict_get body ''result'' (JArr []))) (\<lambda>incidents.
        seq (emit (Log_sn_response incidents)) (\<lambda>_.
        if truthy incidents then lift (subscript_0 incidents) else ret JNull)))))))
       (\<lambda>err. if err = HTTPError
               then seq (emit (Log_http_error err)) (\<lambda>_. ret JNull)
               else seq (emit (Log_other_error err)) (\<lambda>_. ret JNull)))"

subsection \<open>ask_openai\<close>

text \<open>\<open>response['choices'][0]['message']['content'].strip()\<close>\<close>

definition first_choice_content :: "json \<Rightarrow> exn + string" where
  "first_choice_content response =
     and_then (subscript_key response ''choices'') (\<lambda>choices.
     and_then (subscript_0 choices) (\<lambda>choice.
     and_then (subscript_key choice ''message'') (\<lambda>message.
     and_then (subscript_key message ''content'') (\<lambda>content.
     str_strip content))))"

definition ask_openai :: "env \<Rightarrow> json \<Rightarrow> string prog" where
  "ask_openai e description =
     seq (emit (Log_generating description)) (\<lambda>_.
     seq (lift (chat_generate e description)) (\<lambda>response.
     seq (lift (first_choice_content response)) (\<lambda>playbook_content.
     seq (emit (Log_generated playbook_content)) (\<lambda>_.
     ret playbook_content))))"

subsection \<open>format_playbook_content\<close>

text \<open>\<open>content.replace('```yaml', '').replace('```', '').strip()\<close>\<close>

definition strip_fences :: "string \<Rightarrow> string" where
  "strip_fences content = strip (replace (replace content ''```yaml'' []) ''```'' [])"

definition format_playbook_content :: "string \<Rightarrow> string" where
  "format_playbook_content content = ''---\<newline>'' @ strip_fences content"

subsection \<open>search_existing_playbooks\<close>

text \<open>
  \<open>shutil.rmtree\<close> is taken at its contract: when it returns, the directory is gone.
  A successful clone creates the directory.
\<close>

definition clone_existing_playbooks_repo :: "env \<Rightarrow> unit prog" where
  "clone_existing_playbooks_repo e =
     seq (\<lambda>s. (if playbooks_dir s then modify (\<lambda>s. s\<lparr>playbooks_dir := False\<rparr>) else ret ()) s) (\<lambda>_.
     seq (lift (playbooks_clone e)) (\<lambda>_.
     modify (\<lambda>s. s\<lparr>playbooks_dir := True\<rparr>)))"

text \<open>
  The first loop: the files that \<open>os.walk\<close> lists, each with what reading it gives; only
  the files named \<open>*.yml\<close> or \<open>*.yaml\<close> are opened.
\<close>

fun read_playbooks :: "(string \<times> (exn + string)) list \<Rightarrow> exn + string list" where
  "read_playbooks [] = Inr []"
| "read_playbooks ((file, read) # rest) =
     (if suffix ''.yml'' file \<or> suffix ''.yaml'' file
      then and_then read (\<lambda>playbook_content.
           and_then (read_playbooks rest) (\<lambda>existing_playbooks.
           Inr (playbook_content # existing_playbooks)))
      else read_playbooks rest)"

text \<open>The body of the second loop: one classification call and the keyword test.\<close>

definition judged_match :: "(json \<Rightarrow> string \<Rightarrow> exn + json) \<Rightarrow> json \<Rightarrow> string \<Rightarrow> exn + bool" where
  "judged_match chat description playbook =
     and_then (chat description playbook) (\<lambda>response.
     and_then (first_choice_content response) (\<lambda>evaluation.
     Inr (sublist ''matches'' (lower evaluation))))"

text \<open>The second loop: \<open>return playbook\<close> at the first match, \<open>return None\<close> after the loop.\<close>

fun first_match :: "(json \<Rightarrow> string \<Rightarrow> exn + json) \<Rightarrow> json \<Rightarrow> string list \<Rightarrow> exn + string option" where
  "first_match chat description [] = Inr None"
| "first_match chat description (playbook # rest) =
     and_then (judged_match chat description playbook) (\<lambda>matches.
     if matches then Inr (Some playbook) else first_match chat description rest)"

definition search_existing_playbooks :: "env \<Rightarrow> json \<Rightarrow> string option prog" where
  "search_existing_playbooks e description =
     seq (clone_existing_playbooks_repo e) (\<lambda>_.
     seq (emit Log_searching) (\<lambda>_.
     seq (lift (read_playbooks (playbook_files e))) (\<lambda>existing_playbooks.
     lift (first_match (chat_evaluate e) description existing_playbooks))))"

subsection \<open>create_pull_request\<close>

text \<open>The \<open>try\<close> block.\<close>

definition create_pull_request_try :: "env \<Rightarrow> string \<Rightarrow> string \<Rightarrow> string \<Rightarrow> json prog" where
  "create_pull_request_try e branch_name file_path playbook_content =
       (seq (emit Log_cloning) (\<lambda>_.
        seq (lift (git e Clone)) (\<lambda>_.
        seq (modify (\<lambda>s. s\<lparr>repo_dir := True\<rparr>)) (\<lambda>_.
        seq (lift (git e Open_repo)) (\<lambda>_.
        seq (emit (Log_creating_branch branch_name)) (\<lambda>_.
        seq (lift (git e Create_head)) (\<lambda>_.
        seq (lift (git e Checkout)) (\<lambda>_.
        seq (emit (Write_playbook file_path playbook_content)) (\<lambda>_.
        seq (lift (git e Write_file)) (\<lambda>_.
        seq (lift (git e Index_add)) (\<lambda>_.
        seq (lift (git e Index_commit)) (\<lambda>_.
        seq (lift (git e Remote_origin)) (\<lambda>_.
        seq (emit (Git_push branch_name)) (\<lambda>_.
        seq (lift (git e Push)) (\<lambda>_.
        seq (emit (Log_creating_pr branch_name)) (\<lambda>_.
        seq (emit (Http_post branch_name)) (\<lambda>_.
        seq (lift (pr_post e)) (\<lambda>response.
        seq (emit (Log_pr_status (status_code response))) (\<lambda>_.
        if status_code response = 201
        then lift (json_body response)
        else seq (emit (Log_pr_rejected (body_text response))) (\<lambda>_. ret JNull))))))))))))))))))))"

text \<open>
  The whole function: the \<open>finally\<close> block removes the working directory if it is
  there (\<open>shutil.rmtree\<close> at its contract).
\<close>

definition create_pull_request :: "env \<Rightarrow> string \<Rightarrow> string \<Rightarrow> string \<Rightarrow> json prog" where
  "create_pull_request e branch_name file_path playbook_content =
     try_finally
       (create_pull_request_try e branch_name file_path playbook_content)
       (\<lambda>s. (if repo_dir s then modify (\<lambda>s. s\<lparr>repo_dir := False\<rparr>) else ret ()) s)"

subsection \<open>update_incident_state\<close>

text \<open>
  The request body is \<open>{'state': state_id}\<close>, with \<open>'comments'\<close> added when the comment is
  neither \<open>None\<close> nor empty; \<open>Http_patch\<close> carries the record id, the state and the comment
  sent.
\<close>

definition update_incident_state :: "env \<Rightarrow> json \<Rightarrow> string \<Rightarrow> string option \<Rightarrow> unit prog" where
  "update_incident_state e incident_sys_id state_id comment =
     (let comments = (if truthy_str comment then comment else None)
      in seq (emit (Log_updating incident_sys_id state_id)) (\<lambda>_.
         try_except
           (seq (emit (Http_patch incident_sys_id state_id comments)) (\<lambda>_.
            seq (lift (sn_patch e)) (\<lambda>response.
            seq (emit (Log_update_status (status_code response))) (\<lambda>_.
            seq (lift (raise_for_status response)) (\<lambda>_.
            emit Log_update_ok)))))
           (\<lambda>err. if err = HTTPError
                   then emit (Log_update_http_error err)
                   else emit (Log_update_other_error err))))"

subsection \<open>process_incidents\<close>

text \<open>
  How the \<open>try\<close> block of the loop body is left when no exception escapes it: by
  \<open>continue\<close>, or by reaching its end (and then the \<open>time.sleep(5)\<close> after the block).
\<close>

datatype flow = Continue | Fall_through

definition cycle_try_block :: "env \<Rightarrow> flow prog" where
  "cycle_try_block e =
     seq (emit Log_cycle_start) (\<lambda>_.
     seq (get_most_recent_incident e) (\<lambda>most_recent_incident.
     if \<not> truthy most_recent_incident
     then seq (emit Log_no_incidents) (\<lambda>_. seq (emit (Sleep 5)) (\<lambda>_. ret Continue))
     else
     seq (lift (dict_get most_recent_incident ''description'' JNull)) (\<lambda>description.
     seq (lift (dict_get most_recent_incident ''sys_id'' JNull)) (\<lambda>incident_sys_id.
     if \<not> truthy description
     then seq (emit Log_no_description) (\<lambda>_. seq (emit (Sleep 5)) (\<lambda>_. ret Continue))
     else
     seq (search_existing_playbooks e description) (\<lambda>existing_playbook.
     if truthy_str existing_playbook
     then seq (emit Log_found_existing) (\<lambda>_.
          seq (update_incident_state e incident_sys_id AWAITING_USER_INFO_STATE_ID
                 (Some (''Use the following playbook: '' @ EXISTING_PLAYBOOKS_REPO_URL))) (\<lambda>_.
          ret Continue))
     else
     seq (ask_openai e description) (\<lambda>playbook_content.
     let formatted_content = format_playbook_content playbook_content;
         branch_name = ''generated-playbook-'' @ now e;
         file_path = ''generated_playbook.yml''
     in
     seq (create_pull_request e branch_name file_path formatted_content) (\<lambda>pr_response.
     if truthy pr_response
     then seq (lift (subscript_key pr_response ''html_url'')) (\<lambda>html_url.
          seq (emit (Log_pr_created html_url)) (\<lambda>_.
          seq (update_incident_state e incident_sys_id AWAITING_USER_INFO_STATE_ID None) (\<lambda>_.
          ret Fall_through)))
     else seq (emit Log_pr_failed) (\<lambda>_. ret Fall_through))))))))"

text \<open>One iteration of the \<open>while True\<close> loop.\<close>

definition cycle :: "env \<Rightarrow> unit prog" where
  "cycle e =
     seq (try_except (cycle_try_block e)
            (\<lambda>err. seq (emit (Log_cycle_error err)) (\<lambda>_. ret Fall_through))) (\<lambda>flow.
     case flow of Continue \<Rightarrow> ret () | Fall_through \<Rightarrow> emit (Sleep 5))"

text \<open>
  The loop never leaves by itself. Its model runs one iteration per environment
  supplied, in order, and stops early only if an exception escapes an iteration.
\<close>

fun process_incidents :: "env list \<Rightarrow> unit prog" where
  "process_incidents [] = ret ()"
| "process_incidents (e # es) = seq (cycle e) (\<lambda>_. process_incidents es)"

section \<open>Reading traces\<close>

text \<open>The function of the program that produces each event.\<close>

datatype component = Loop | Fetch | Search | Generate | Publish | Update

fun component_of :: "event \<Rightarrow> component" where
  "component_of Log_cycle_start = Loop"
| "component_of Log_sn_call = Fetch"
| "component_of (Log_sn_status n) = Fetch"
| "component_of (Log_sn_response j) = Fetch"
| "component_of (Log_http_error x) = Fetch"
| "component_of (Log_other_error x) = Fetch"
| "component_of Log_no_incidents = Loop"
| "component_of Log_no_description = Loop"
| "component_of Log_searching = Search"
| "component_of Log_found_existing = Loop"
| "component_of (Log_generating d) = Generate"
| "component_of (Log_generated c) = Generate"
| "component_of Log_cloning = Publish"
| "component_of (Log_creating_branch b) = Publish"
| "component_of (Write_playbook f c) = Publish"
| "component_of (Git_push b) = Publish"
| "component_of (Log_creating_pr b) = Publish"
| "component_of (Http_post b) = Publish"
| "component_of (Log_pr_status n) = Publish"
| "component_of (Log_pr_rejected t) = Publish"
| "component_of (Log_pr_created u) = Loop"
| "component_of Log_pr_failed = Loop"
| "component_of (Log_updating i st) = Update"
| "component_of (Http_patch i st c) = Update"
| "component_of (Log_update_status n) = Update"
| "component_of Log_update_ok = Update"
| "component_of (Log_update_http_error x) = Update"
| "component_of (Log_update_other_error x) = Update"
| "component_of (Log_cycle_error x) = Loop"
| "component_of (Sleep n) = Loop"

text \<open>\<open>from_component c m\<close>: whatever \<open>m\<close> is run on, all its events come from \<open>c\<close>.\<close>

definition from_component :: "component \<Rightarrow> 'a prog \<Rightarrow> bool" where
  "from_component c m = (\<forall>s. \<forall>ev \<in> set (events (m s)). component_of ev = c)"

text \<open>\<open>all_from c evs\<close>: every event of the trace comes from \<open>c\<close>.\<close>

definition all_from :: "component \<Rightarrow> event list \<Rightarrow> bool" where
  "all_from c evs = list_all (\<lambda>ev. component_of ev = c) evs"

text \<open>The state updates issued: the PATCH requests of a trace.\<close>

fun is_patch :: "event \<Rightarrow> bool" where
  "is_patch (Http_patch i st c) = True"
| "is_patch _ = False"

definition state_updates :: "event list \<Rightarrow> event list" where
  "state_updates evs = filter is_patch evs"

fun is_post :: "event \<Rightarrow> bool" where
  "is_post (Http_post b) = True"
| "is_post _ = False"

fun is_pr_created :: "event \<Rightarrow> bool" where
  "is_pr_created (Log_pr_created u) = True"
| "is_pr_created _ = False"

fun is_cycle_error :: "event \<Rightarrow> bool" where
  "is_cycle_error (Log_cycle_error x) = True"
| "is_cycle_error _ = False"

text \<open>
  The two paths to a state update: the loop logged that an existing playbook matches;
  the loop logged the pull request it created.
\<close>

definition matched_path :: "event list \<Rightarrow> bool" where
  "matched_path evs = (Log_found_existing \<in> set evs)"

definition generated_path :: "event list \<Rightarrow> bool" where
  "generated_path evs = list_ex is_pr_created evs"

text \<open>A string that \<open>strip\<close> leaves as it is.\<close>

definition stripped :: "string \<Rightarrow> bool" where
  "stripped s = (s = [] \<or> (\<not> isspace (hd s) \<and> \<not> isspace (last s)))"

abbreviation (input) match_comment :: "string option" where
  "match_comment \<equiv> Some (''Use the following playbook: '' @ EXISTING_PLAYBOOKS_REPO_URL)"

abbreviation (input) branch_of :: "env \<Rightarrow> string" where
  "branch_of e \<equiv> ''generated-playbook-'' @ now e"

section \<open>Sample environments\<close>

definition fs0 :: fs where
  "fs0 = \<lparr>repo_dir = False, playbooks_dir = False\<rparr>"

definition sample_incident :: json where
  "sample_incident =
     JObj [(''sys_id'', JStr ''abc123''), (''description'', JStr ''disk full on node7'')]"

text \<open>A completion whose first choice carries the given text.\<close>

definition completion :: "string \<Rightarrow> json" where
  "completion t = JObj [(''choices'', JArr [JObj [(''message'', JObj [(''content'', JStr t)])]])]"

definition response :: "int \<Rightarrow> json \<Rightarrow> http_response" where
  "response code body = \<lparr>status_code = code, json_body = Inr body, body_text = []\<rparr>"

text \<open>
  An incident with a description, an empty catalog, a generated playbook, every git
  step succeeding, a pull request created (201) and the ticket update accepted.
\<close>

definition generated_env :: env where
  "generated_env =
     \<lparr>sn_get = Inr (response 200 (JObj [(''result'', JArr [sample_incident])])),
      sn_patch = Inr (response 200 (JObj [])),
      playbooks_clone = Inr (),
      playbook_files = [],
      chat_evaluate = (\<lambda>description playbook. Inr (completion ''No.'')),
      chat_generate = (\<lambda>description. Inr (completion ''```yaml - hosts: all```'')),
      now = ''20240101120000'',
      git = (\<lambda>step. Inr ()),
      pr_post = Inr (response 201 (JObj [(''html_url'', JStr ''https://example.org/pull/1'')]))\<rparr>"

text \<open>The catalog holds one playbook and the classifier says it matches.\<close>

definition matched_env :: env where
  "matched_env = generated_env
     \<lparr>playbook_files := [(''restart-service.yml'', Inr ''- name: restart'')],
      chat_evaluate := (\<lambda>description playbook. Inr (completion ''The playbook matches.''))\<rparr>"

text \<open>The ticketing backend has no incident.\<close>

definition idle_env :: env where
  "idle_env = generated_env \<lparr>sn_get := Inr (response 200 (JObj [(''result'', JArr [])]))\<rparr>"


text \<open>The generative provider answers with an empty text.\<close>

definition empty_reply_env :: env where
  "empty_reply_env = generated_env \<lparr>chat_generate := (\<lambda>description. Inr (completion []))\<rparr>"

text \<open>The generative provider call raises.\<close>

definition provider_down_env :: env where
  "provider_down_env = generated_env \<lparr>chat_generate := (\<lambda>description. Inl OpenAIError)\<rparr>"


text \<open>The ticketing backend answers 500; the network call to it fails.\<close>

definition backend_500_env :: env where
  "backend_500_env = generated_env \<lparr>sn_get := Inr (response 500 (JObj []))\<rparr>"

definition network_down_env :: env where
  "network_down_env = generated_env \<lparr>sn_get := Inl ConnectionError\<rparr>"




section \<open>Facts about the string operations\<close>

lemma scan_step:
  "\<not> prefix old (c # cs) \<Longrightarrow> replace_scan old new (c # cs) = c # replace_scan old new cs"
  by simp

lemma scan_skip:
  "old \<noteq> [] \<Longrightarrow> prefix old (c # cs) \<Longrightarrow>
   replace_scan old new (c # cs) = new @ replace_scan old new (drop (length old) (c # cs))"
  by simp

declare replace_scan.simps(2) [simp del]

lemma scan_no_occurrence:
  "old \<noteq> [] \<Longrightarrow> \<not> sublist old s \<Longrightarrow> replace_scan old new s = s"
  by (induction s) (auto simp: sublist_Cons_right scan_step)

lemma replace_no_occurrence:
  "old \<noteq> [] \<Longrightarrow> \<not> sublist old s \<Longrightarrow> replace s old new = s"
  by (simp add: replace_def scan_no_occurrence)

lemma prefix_run3D: "prefix [b, b, b] s \<Longrightarrow> \<exists>r. s = b # b # b # r"
  by (auto simp: prefix_def)

lemma scan_run_head:
  assumes "prefix [b] (replace_scan [b, b, b] [] s)"
  shows "prefix [b] s"
proof (cases "prefix [b, b, b] s")
  case True
  from prefix_run3D[OF this] obtain r where "s = b # b # b # r" ..
  then show ?thesis by simp
next
  case False
  show ?thesis
  proof (cases s)
    case Nil
    with assms show ?thesis by simp
  next
    case (Cons c cs)
    from False have "\<not> prefix [b, b, b] (c # cs)" unfolding Cons .
    then have step: "replace_scan [b, b, b] [] (c # cs) = c # replace_scan [b, b, b] [] cs"
      by (rule scan_step)
    from assms have "prefix [b] (c # replace_scan [b, b, b] [] cs)" unfolding Cons step .
    then show ?thesis unfolding Cons by simp
  qed
qed

lemma scan_run_head2:
  assumes "prefix [b, b] (replace_scan [b, b, b] [] s)"
  shows "prefix [b, b] s"
proof (cases "prefix [b, b, b] s")
  case True
  from prefix_run3D[OF this] obtain r where "s = b # b # b # r" ..
  then show ?thesis by simp
next
  case False
  show ?thesis
  proof (cases s)
    case Nil
    with assms show ?thesis by simp
  next
    case (Cons c cs)
    from False have "\<not> prefix [b, b, b] (c # cs)" unfolding Cons .
    then have step: "replace_scan [b, b, b] [] (c # cs) = c # replace_scan [b, b, b] [] cs"
      by (rule scan_step)
    from assms have "prefix [b, b] (c # replace_scan [b, b, b] [] cs)" unfolding Cons step .
    then have "b = c" and "prefix [b] (replace_scan [b, b, b] [] cs)" by auto
    then have "b = c" and "prefix [b] cs" by (auto dest: scan_run_head)
    then show ?thesis unfolding Cons by simp
  qed
qed

lemma scan_removes_run: "\<not> sublist [b, b, b] (replace_scan [b, b, b] [] s)"
proof (induction s rule: length_induct)
  case (1 s)
  show ?case
  proof (cases "prefix [b, b, b] s")
    case True
    from prefix_run3D[OF this] obtain r where s: "s = b # b # b # r" ..
    have "replace_scan [b, b, b] [] (b # b # b # r) =
        [] @ replace_scan [b, b, b] [] (drop (length [b, b, b]) (b # b # b # r))"
      by (rule scan_skip) simp_all
    then have "replace_scan [b, b, b] [] s = replace_scan [b, b, b] [] r"
      unfolding s by simp
    moreover from 1 have "\<not> sublist [b, b, b] (replace_scan [b, b, b] [] r)"
      unfolding s by simp
    ultimately show ?thesis by simp
  next
    case False
    show ?thesis
    proof (cases s)
      case Nil
      then show ?thesis by simp
    next
      case (Cons c cs)
      from 1 have ih: "\<not> sublist [b, b, b] (replace_scan [b, b, b] [] cs)"
        unfolding Cons by simp
      from False have nf: "\<not> prefix [b, b, b] (c # cs)" unfolding Cons .
      then have step:
        "replace_scan [b, b, b] [] (c # cs) = c # replace_scan [b, b, b] [] cs"
        by (rule scan_step)
      have "\<not> prefix [b, b, b] (c # replace_scan [b, b, b] [] cs)"
      proof
        assume "prefix [b, b, b] (c # replace_scan [b, b, b] [] cs)"
        then have "b = c" and "prefix [b, b] (replace_scan [b, b, b] [] cs)" by auto
        then have "b = c" and "prefix [b, b] cs" by (auto dest: scan_run_head2)
        then have "prefix [b, b, b] (c # cs)" by simp
        with nf show False by blast
      qed
      with ih show ?thesis unfolding Cons step by (simp add: sublist_Cons_right)
    qed
  qed
qed

lemma scan_removes_fences: "\<not> sublist ''```'' (replace_scan ''```'' [] s)"
  by (rule scan_removes_run)

lemma sublist_strip: "sublist (strip s) s"
proof -
  have "suffix (dropWhile isspace (rev (dropWhile isspace s))) (rev (dropWhile isspace s))"
    by (rule suffix_dropWhile)
  then have "prefix (strip s) (dropWhile isspace s)"
    by (simp add: strip_def suffix_to_prefix)
  moreover have "suffix (dropWhile isspace s) s" by (rule suffix_dropWhile)
  ultimately show ?thesis
    by (meson prefix_imp_sublist suffix_imp_sublist sublist_order.order_trans)
qed

lemma no_occurrence_strip: "\<not> sublist p s \<Longrightarrow> \<not> sublist p (strip s)"
  using sublist_strip sublist_order.order_trans by blast

lemma strip_stripped: "stripped s \<Longrightarrow> strip s = s"
proof (cases "s = []")
  case True
  then show ?thesis by (simp add: strip_def)
next
  case False
  assume "stripped s"
  with False have h: "\<not> isspace (hd s)" and l: "\<not> isspace (last s)"
    by (auto simp: stripped_def)
  from False h have "dropWhile isspace s = s" by (cases s) auto
  moreover from False l have "dropWhile isspace (rev s) = rev s"
    by (cases "rev s") (auto simp: last_rev hd_rev[symmetric])
  ultimately show ?thesis by (simp add: strip_def)
qed

lemma stripped_strip: "stripped (strip s)"
proof (cases "strip s = []")
  case True
  then show ?thesis by (simp add: stripped_def)
next
  case False
  let ?t = "dropWhile isspace s"
  let ?u = "dropWhile isspace (rev ?t)"
  from False have u: "?u \<noteq> []" by (simp add: strip_def)
  have t: "?t \<noteq> []"
  proof
    assume e: "?t = []"
    have "?u = []" unfolding e by simp
    with u show False by blast
  qed
  have "\<not> isspace (hd ?u)" using u by (rule hd_dropWhile)
  then have last_ok: "\<not> isspace (last (strip s))"
    using u by (simp add: strip_def last_rev)
  have ht: "\<not> isspace (hd ?t)" using t by (rule hd_dropWhile)
  obtain a as where as: "?t = a # as" using t by (cases ?t) auto
  with ht have "\<not> isspace a" by simp
  then have "?u = dropWhile isspace (rev as) @ [a]"
    using as by (simp add: dropWhile_append)
  then have "hd (strip s) = a" by (simp add: strip_def)
  with \<open>\<not> isspace a\<close> last_ok show ?thesis by (simp add: stripped_def)
qed

lemma strip_idem: "strip (strip s) = strip s"
  by (simp add: strip_stripped stripped_strip)

lemma no_fence_strip_fences: "\<not> sublist ''```'' (strip_fences s)"
  unfolding strip_fences_def
  by (rule no_occurrence_strip) (simp add: replace_def scan_removes_fences)

lemma no_yaml_fence: "\<not> sublist ''```'' s \<Longrightarrow> \<not> sublist ''```yaml'' s"
proof -
  have "sublist ''```'' ''```yaml''" by (rule prefix_imp_sublist) simp
  then show "\<not> sublist ''```'' s \<Longrightarrow> \<not> sublist ''```yaml'' s"
    using sublist_order.order_trans by blast
qed

lemma no_fence_marker: "\<not> sublist ''```'' s \<Longrightarrow> \<not> sublist ''```'' (''---\<newline>'' @ s)"
  by (simp add: sublist_Cons_right)

lemma strip_fences_clean:
  assumes "\<not> sublist ''```'' s"
  shows "strip_fences s = strip s"
  using assms by (simp add: strip_fences_def replace_no_occurrence no_yaml_fence)

lemma strip_fences_idem: "strip_fences (strip_fences s) = strip_fences s"
proof -
  have "strip_fences (strip_fences s) = strip (strip_fences s)"
    by (rule strip_fences_clean) (rule no_fence_strip_fences)
  also have "\<dots> = strip_fences s" by (simp add: strip_fences_def strip_idem)
  finally show ?thesis .
qed

lemma stripped_strip_fences: "stripped (strip_fences s)"
  by (simp add: strip_fences_def stripped_strip)

lemma isspace_newline: "isspace CHR 0x0A"
  by (simp add: isspace_def)
lemma not_isspace_dash: "\<not> isspace CHR ''-''"
  by (simp add: isspace_def)

lemma strip_marker_body:
  assumes "stripped b" "b \<noteq> []"
  shows "strip (''---\<newline>'' @ b) = ''---\<newline>'' @ b"
proof (rule strip_stripped)
  from assms have "\<not> isspace (last b)" by (simp add: stripped_def)
  with assms(2) show "stripped (''---\<newline>'' @ b)"
    by (simp add: stripped_def not_isspace_dash)
qed

lemma format_twice:
  "format_playbook_content (format_playbook_content x) =
     ''---\<newline>'' @ (if strip_fences x = [] then ''---'' else format_playbook_content x)"
proof -
  let ?b = "strip_fences x"
  have nf: "\<not> sublist ''```'' (''---\<newline>'' @ ?b)"
    by (rule no_fence_marker) (rule no_fence_strip_fences)
  have "strip_fences (''---\<newline>'' @ ?b) = strip (''---\<newline>'' @ ?b)"
    using nf by (rule strip_fences_clean)
  also have "\<dots> = (if ?b = [] then ''---'' else ''---\<newline>'' @ ?b)"
  proof (cases "?b = []")
    case True
    then show ?thesis by (simp add: strip_def isspace_def)
  next
    case False
    then show ?thesis using strip_marker_body[OF stripped_strip_fences False] by simp
  qed
  finally show ?thesis by (simp add: format_playbook_content_def)
qed

section \<open>Running programs\<close>

lemma and_then_Inl [simp]: "and_then (Inl x) f = Inl x"
  by (simp add: and_then_def)

lemma and_then_Inr [simp]: "and_then (Inr v) f = f v"
  by (simp add: and_then_def)

lemma ret_run [simp]: "ret v s = (Inr v, [], s)"
  by (simp add: ret_def)
lemma lift_run [simp]: "lift r s = (r, [], s)"
  by (simp add: lift_def)
lemma emit_run [simp]: "emit ev s = (Inr (), [ev], s)"
  by (simp add: emit_def)
lemma modify_run [simp]: "modify f s = (Inr (), [], f s)"
  by (simp add: modify_def)

lemma seq_Inl: "m s = (Inl x, t, s') \<Longrightarrow> seq m f s = (Inl x, t, s')"
  by (simp add: seq_def)

lemma seq_Inr:
  "m s = (Inr v, t, s') \<Longrightarrow>
   seq m f s = (outcome (f v s'), t @ events (f v s'), final_fs (f v s'))"
  by (cases "f v s'") (simp add: seq_def)

lemma seq_emit [simp]:
  "seq (emit ev) f s = (outcome (f () s), ev # events (f () s), final_fs (f () s))"
  by (simp add: seq_Inr)

lemma seq_lift [simp]:
  "seq (lift r) f s = (case r of Inl x \<Rightarrow> (Inl x, [], s) | Inr v \<Rightarrow> f v s)"
  by (cases r; cases "f (projr r) s") (simp_all add: seq_def)

lemma seq_ret [simp]: "seq (ret v) f s = f v s"
  by (cases "f v s") (simp add: seq_def)

lemma seq_modify [simp]: "seq (modify g) f s = f () (g s)"
  by (cases "f () (g s)") (simp add: seq_def)

lemma from_component_ret [simp]: "from_component c (ret v)"
  by (simp add: from_component_def)

lemma from_component_lift [simp]: "from_component c (lift r)"
  by (simp add: from_component_def)

lemma from_component_modify [simp]: "from_component c (modify g)"
  by (simp add: from_component_def)

lemma from_component_emit [simp]: "from_component c (emit ev) = (component_of ev = c)"
  by (simp add: from_component_def)

lemma from_component_seq:
  "from_component c m \<Longrightarrow> (\<And>v. from_component c (f v)) \<Longrightarrow> from_component c (seq m f)"
  unfolding from_component_def seq_def
  by (auto split: prod.splits sum.splits) (metis events.simps)+

lemma from_component_try_except:
  "from_component c m \<Longrightarrow> (\<And>x. from_component c (h x)) \<Longrightarrow> from_component c (try_except m h)"
  unfolding from_component_def try_except_def
  by (auto split: prod.splits sum.splits) (metis events.simps)+

lemma from_component_try_finally:
  "from_component c m \<Longrightarrow> from_component c fin \<Longrightarrow> from_component c (try_finally m fin)"
  unfolding from_component_def try_finally_def
  by (auto split: prod.splits sum.splits) (metis events.simps)+

lemma from_component_if:
  "from_component c m \<Longrightarrow> from_component c n \<Longrightarrow> from_component c (if b then m else n)"
  by simp

lemma from_component_test:
  "from_component c m \<Longrightarrow> from_component c n \<Longrightarrow>
   from_component c (\<lambda>s. (if b s then m else n) s)"
  by (simp add: from_component_def)

lemmas from_component_intros =
  from_component_seq from_component_try_except from_component_try_finally
  from_component_if from_component_test

lemma fetch_component: "from_component Fetch (get_most_recent_incident e)"
  unfolding get_most_recent_incident_def
  by (intro from_component_intros) simp_all

lemma search_component: "from_component Search (search_existing_playbooks e d)"
  unfolding search_existing_playbooks_def clone_existing_playbooks_repo_def
  by (intro from_component_intros) simp_all

lemma generate_component: "from_component Generate (ask_openai e d)"
  unfolding ask_openai_def
  by (intro from_component_intros) simp_all

lemma publish_component: "from_component Publish (create_pull_request e b f c)"
  unfolding create_pull_request_def create_pull_request_try_def
  by (intro from_component_intros) simp_all

lemma update_component: "from_component Update (update_incident_state e i st c)"
  unfolding update_incident_state_def Let_def
  by (intro from_component_intros) simp_all


lemma fetch_returns: "\<exists>inc tf. get_most_recent_incident e s = (Inr inc, tf, s)"
  unfolding get_most_recent_incident_def
  by (simp add: try_except_def split: sum.splits prod.splits)

lemma update_returns:
  "\<exists>tu. update_incident_state e i st c s = (Inr (), tu, s) \<and>
        state_updates tu = [Http_patch i st (if truthy_str c then c else None)]"
  unfolding update_incident_state_def Let_def state_updates_def
  by (simp add: try_except_def split: sum.splits prod.splits)

lemma ask_openai_run:
  "ask_openai e d s =
     (case and_then (chat_generate e d) first_choice_content of
        Inl x \<Rightarrow> (Inl x, [Log_generating d], s)
      | Inr c \<Rightarrow> (Inr c, [Log_generating d, Log_generated c], s))"
  unfolding ask_openai_def
  by (simp add: and_then_def split: sum.splits)

lemma try_finally_run:
  "try_finally m (\<lambda>s. (if repo_dir s then modify (\<lambda>s. s\<lparr>repo_dir := False\<rparr>) else ret ()) s) s =
     (outcome (m s), events (m s), (final_fs (m s))\<lparr>repo_dir := False\<rparr>)"
  by (cases "m s") (simp add: try_finally_def)

lemma publish_try_run:
  "list_ex is_post (events (create_pull_request_try e b f c s)) \<Longrightarrow>
   outcome (create_pull_request_try e b f c s) =
     (case pr_post e of
        Inl x \<Rightarrow> Inl x
      | Inr r \<Rightarrow> if status_code r = 201 then json_body r else Inr JNull) \<and>
   Git_push b \<in> set (events (create_pull_request_try e b f c s))"
  unfolding create_pull_request_try_def
  by (simp split: sum.splits)

lemma create_pull_request_run:
  "create_pull_request e b f c s =
     (outcome (create_pull_request_try e b f c s),
      events (create_pull_request_try e b f c s),
      (final_fs (create_pull_request_try e b f c s))\<lparr>repo_dir := False\<rparr>)"
  unfolding create_pull_request_def by (rule try_finally_run)


lemma dict_get_sys_id:
  "dict_get inc ''description'' JNull = Inr d \<Longrightarrow> \<exists>sid. dict_get inc ''sys_id'' JNull = Inr sid"
  by (cases inc) simp_all

lemma seq_run:
  "seq m f s = (case m s of
       (Inl x, t, s') \<Rightarrow> (Inl x, t, s')
     | (Inr v, t, s') \<Rightarrow> (outcome (f v s'), t @ events (f v s'), final_fs (f v s')))"
  by (cases "m s" rule: prod_cases3; cases "outcome (m s)")
     (auto simp: seq_Inl seq_Inr)

lemma cycle_run:
  "cycle e s =
     (case cycle_try_block e s of
        (Inl x, t, s') \<Rightarrow> (Inr (), t @ [Log_cycle_error x, Sleep 5], s')
      | (Inr Continue, t, s') \<Rightarrow> (Inr (), t, s')
      | (Inr Fall_through, t, s') \<Rightarrow> (Inr (), t @ [Sleep 5], s'))"
  unfolding cycle_def
  by (simp add: seq_def try_except_def split: prod.splits sum.splits flow.splits)

section \<open>Which component an event comes from\<close>

lemma from_componentD:
  "from_component c m \<Longrightarrow> m s = (r, t, s') \<Longrightarrow> all_from c t"
  unfolding from_component_def all_from_def list_all_iff by (metis events.simps)

lemma all_from_absent: "all_from c t \<Longrightarrow> component_of ev \<noteq> c \<Longrightarrow> ev \<notin> set t"
  by (auto simp: all_from_def list_all_iff)

lemma is_patch_component: "is_patch ev \<Longrightarrow> component_of ev = Update"
  by (cases ev) simp_all

lemma is_post_component: "is_post ev \<Longrightarrow> component_of ev = Publish"
  by (cases ev) simp_all

lemma is_pr_created_component: "is_pr_created ev \<Longrightarrow> component_of ev = Loop"
  by (cases ev) simp_all

lemma is_cycle_error_component: "is_cycle_error ev \<Longrightarrow> component_of ev = Loop"
  by (cases ev) simp_all

lemma state_updates_append [simp]:
  "state_updates (a @ b) = state_updates a @ state_updates b"
  by (simp add: state_updates_def)

lemma state_updates_Cons [simp]:
  "state_updates (ev # evs) = (if is_patch ev then ev # state_updates evs else state_updates evs)"
  by (simp add: state_updates_def)

lemma state_updates_Nil [simp]: "state_updates [] = []"
  by (simp add: state_updates_def)

lemma all_from_no_updates: "all_from c t \<Longrightarrow> c \<noteq> Update \<Longrightarrow> state_updates t = []"
  using is_patch_component
  by (auto simp: all_from_def list_all_iff state_updates_def filter_empty_conv)

lemma all_from_no_post: "all_from c t \<Longrightarrow> c \<noteq> Publish \<Longrightarrow> \<not> list_ex is_post t"
  using is_post_component by (auto simp: all_from_def list_all_iff list_ex_iff)

lemma all_from_no_pr_created: "all_from c t \<Longrightarrow> c \<noteq> Loop \<Longrightarrow> \<not> list_ex is_pr_created t"
  using is_pr_created_component by (auto simp: all_from_def list_all_iff list_ex_iff)

lemma all_from_no_cycle_error: "all_from c t \<Longrightarrow> c \<noteq> Loop \<Longrightarrow> \<not> list_ex is_cycle_error t"
  using is_cycle_error_component by (auto simp: all_from_def list_all_iff list_ex_iff)

lemmas quiet =
  all_from_absent all_from_no_updates all_from_no_post all_from_no_pr_created
  all_from_no_cycle_error

text \<open>What each function of the program leaves in the trace.\<close>

lemma fetch_trace:
  "\<exists>inc tf. get_most_recent_incident e s = (Inr inc, tf, s) \<and> all_from Fetch tf"
  using fetch_returns[of e s] from_componentD[OF fetch_component] by blast

lemma search_trace:
  "\<exists>rs ts s2. search_existing_playbooks e d s = (rs, ts, s2) \<and> all_from Search ts"
  using from_componentD[OF search_component] by (cases "search_existing_playbooks e d s") blast

lemma ask_openai_trace:
  "\<exists>ta. ask_openai e d s = (and_then (chat_generate e d) first_choice_content, ta, s) \<and>
     all_from Generate ta \<and> (\<forall>d'. Log_generating d' \<in> set ta \<longleftrightarrow> d' = d)"
  by (cases "and_then (chat_generate e d) first_choice_content")
     (auto simp: ask_openai_run all_from_def)

lemma publish_trace:
  "\<exists>rp tp s3. create_pull_request e b f c s = (rp, tp, s3) \<and> all_from Publish tp \<and>
     Log_cloning \<in> set tp \<and>
     (list_ex is_post tp \<longrightarrow> Git_push b \<in> set tp \<and>
        rp = (case pr_post e of
                Inl x \<Rightarrow> Inl x
              | Inr r \<Rightarrow> if status_code r = 201 then json_body r else Inr JNull))"
proof -
  have "Log_cloning \<in> set (events (create_pull_request_try e b f c s))"
    by (simp add: create_pull_request_try_def)
  then show ?thesis
    using publish_try_run[of e b f c s]
      from_componentD[OF publish_component create_pull_request_run]
    by (simp add: create_pull_request_run)
qed

lemma update_trace:
  "\<exists>tu. update_incident_state e i st c s = (Inr (), tu, s) \<and> all_from Update tu \<and>
     state_updates tu = [Http_patch i st (if truthy_str c then c else None)]"
  using update_returns[of e i st c s] from_componentD[OF update_component] by blast

section \<open>The ways a cycle can run\<close>

lemma cycle_cases [consumes 0, case_names idle malformed no_description search_failed matched
    generation_failed publish_raised publish_absent no_url generated]:
  obtains
    (idle) inc tf where
      "get_most_recent_incident e s = (Inr inc, tf, s)" "all_from Fetch tf"
      "\<not> truthy inc"
      "cycle e s = (Inr (), Log_cycle_start # tf @ [Log_no_incidents, Sleep 5], s)"
  | (malformed) inc tf x where
      "get_most_recent_incident e s = (Inr inc, tf, s)" "all_from Fetch tf"
      "truthy inc" "dict_get inc ''description'' JNull = Inl x"
      "cycle e s = (Inr (), Log_cycle_start # tf @ [Log_cycle_error x, Sleep 5], s)"
  | (no_description) inc tf d where
      "get_most_recent_incident e s = (Inr inc, tf, s)" "all_from Fetch tf"
      "truthy inc" "dict_get inc ''description'' JNull = Inr d" "\<not> truthy d"
      "cycle e s = (Inr (), Log_cycle_start # tf @ [Log_no_description, Sleep 5], s)"
  | (search_failed) inc tf d x ts s2 where
      "get_most_recent_incident e s = (Inr inc, tf, s)" "all_from Fetch tf"
      "truthy inc" "dict_get inc ''description'' JNull = Inr d" "truthy d"
      "search_existing_playbooks e d s = (Inl x, ts, s2)" "all_from Search ts"
      "cycle e s = (Inr (), Log_cycle_start # tf @ ts @ [Log_cycle_error x, Sleep 5], s2)"
  | (matched) inc tf d sid p ts s2 tu where
      "get_most_recent_incident e s = (Inr inc, tf, s)" "all_from Fetch tf"
      "truthy inc" "dict_get inc ''description'' JNull = Inr d" "truthy d"
      "dict_get inc ''sys_id'' JNull = Inr sid"
      "search_existing_playbooks e d s = (Inr (Some p), ts, s2)" "all_from Search ts"
      "p \<noteq> []"
      "update_incident_state e sid AWAITING_USER_INFO_STATE_ID match_comment s2 = (Inr (), tu, s2)"
      "all_from Update tu"
      "state_updates tu = [Http_patch sid AWAITING_USER_INFO_STATE_ID match_comment]"
      "cycle e s = (Inr (), Log_cycle_start # tf @ ts @ Log_found_existing # tu, s2)"
  | (generation_failed) inc tf d found ts s2 x ta where
      "get_most_recent_incident e s = (Inr inc, tf, s)" "all_from Fetch tf"
      "truthy inc" "dict_get inc ''description'' JNull = Inr d" "truthy d"
      "search_existing_playbooks e d s = (Inr found, ts, s2)" "all_from Search ts"
      "\<not> truthy_str found"
      "ask_openai e d s2 = (Inl x, ta, s2)" "all_from Generate ta"
      "cycle e s = (Inr (), Log_cycle_start # tf @ ts @ ta @ [Log_cycle_error x, Sleep 5], s2)"
  | (publish_raised) inc tf d found ts s2 content ta x tp s3 where
      "get_most_recent_incident e s = (Inr inc, tf, s)" "all_from Fetch tf"
      "truthy inc" "dict_get inc ''description'' JNull = Inr d" "truthy d"
      "search_existing_playbooks e d s = (Inr found, ts, s2)" "all_from Search ts"
      "\<not> truthy_str found"
      "ask_openai e d s2 = (Inr content, ta, s2)" "all_from Generate ta"
      "create_pull_request e (branch_of e) ''generated_playbook.yml''
         (format_playbook_content content) s2 = (Inl x, tp, s3)" "all_from Publish tp"
      "cycle e s =
         (Inr (), Log_cycle_start # tf @ ts @ ta @ tp @ [Log_cycle_error x, Sleep 5], s3)"
  | (publish_absent) inc tf d found ts s2 content ta pr tp s3 where
      "get_most_recent_incident e s = (Inr inc, tf, s)" "all_from Fetch tf"
      "truthy inc" "dict_get inc ''description'' JNull = Inr d" "truthy d"
      "search_existing_playbooks e d s = (Inr found, ts, s2)" "all_from Search ts"
      "\<not> truthy_str found"
      "ask_openai e d s2 = (Inr content, ta, s2)" "all_from Generate ta"
      "create_pull_request e (branch_of e) ''generated_playbook.yml''
         (format_playbook_content content) s2 = (Inr pr, tp, s3)" "all_from Publish tp"
      "\<not> truthy pr"
      "cycle e s = (Inr (), Log_cycle_start # tf @ ts @ ta @ tp @ [Log_pr_failed, Sleep 5], s3)"
  | (no_url) inc tf d found ts s2 content ta pr tp s3 x where
      "get_most_recent_incident e s = (Inr inc, tf, s)" "all_from Fetch tf"
      "truthy inc" "dict_get inc ''description'' JNull = Inr d" "truthy d"
      "search_existing_playbooks e d s = (Inr found, ts, s2)" "all_from Search ts"
      "\<not> truthy_str found"
      "ask_openai e d s2 = (Inr content, ta, s2)" "all_from Generate ta"
      "create_pull_request e (branch_of e) ''generated_playbook.yml''
         (format_playbook_content content) s2 = (Inr pr, tp, s3)" "all_from Publish tp"
      "truthy pr" "subscript_key pr ''html_url'' = Inl x"
      "cycle e s =
         (Inr (), Log_cycle_start # tf @ ts @ ta @ tp @ [Log_cycle_error x, Sleep 5], s3)"
  | (generated) inc tf d sid found ts s2 content ta pr tp s3 url tu where
      "get_most_recent_incident e s = (Inr inc, tf, s)" "all_from Fetch tf"
      "truthy inc" "dict_get inc ''description'' JNull = Inr d" "truthy d"
      "dict_get inc ''sys_id'' JNull = Inr sid"
      "search_existing_playbooks e d s = (Inr found, ts, s2)" "all_from Search ts"
      "\<not> truthy_str found"
      "ask_openai e d s2 = (Inr content, ta, s2)" "all_from Generate ta"
      "create_pull_request e (branch_of e) ''generated_playbook.yml''
         (format_playbook_content content) s2 = (Inr pr, tp, s3)" "all_from Publish tp"
      "truthy pr" "subscript_key pr ''html_url'' = Inr url"
      "update_incident_state e sid AWAITING_USER_INFO_STATE_ID None s3 = (Inr (), tu, s3)"
      "all_from Update tu"
      "state_updates tu = [Http_patch sid AWAITING_USER_INFO_STATE_ID None]"
      "cycle e s =
         (Inr (), Log_cycle_start # tf @ ts @ ta @ tp @ Log_pr_created url # tu @ [Sleep 5], s3)"
proof -
  obtain inc tf where fetch: "get_most_recent_incident e s = (Inr inc, tf, s)"
    and tf: "all_from Fetch tf"
    using fetch_trace by blast
  show thesis
  proof (cases "truthy inc")
    case False
    with fetch show thesis
      by (intro idle[OF fetch tf]) (simp_all add: cycle_run cycle_try_block_def seq_run)
  next
    case inc: True
    show thesis
    proof (cases "dict_get inc ''description'' JNull")
      case (Inl x)
      with fetch inc show thesis
        by (intro malformed[OF fetch tf inc Inl])
           (simp add: cycle_run cycle_try_block_def seq_run)
    next
      case d: (Inr d)
      then obtain sid where sid: "dict_get inc ''sys_id'' JNull = Inr sid"
        using dict_get_sys_id by blast
      show thesis
      proof (cases "truthy d")
        case False
        with fetch inc d sid show thesis
          by (intro no_description[OF fetch tf inc d])
             (simp_all add: cycle_run cycle_try_block_def seq_run)
      next
        case td: True
        obtain rs ts s2 where search: "search_existing_playbooks e d s = (rs, ts, s2)"
          and ts: "all_from Search ts"
          using search_trace by blast
        show thesis
        proof (cases rs)
          case (Inl x)
          with fetch inc d sid td search show thesis
            by (intro search_failed[OF fetch tf inc d td _ ts])
               (simp_all add: cycle_run cycle_try_block_def seq_run)
        next
          case (Inr found)
          note search = search[unfolded Inr]
          show thesis
          proof (cases "truthy_str found")
            case True
            then obtain p where p: "found = Some p" "p \<noteq> []" by (cases found) auto
            obtain tu where
              tu: "update_incident_state e sid AWAITING_USER_INFO_STATE_ID match_comment s2 =
                (Inr (), tu, s2)" "all_from Update tu"
                "state_updates tu = [Http_patch sid AWAITING_USER_INFO_STATE_ID
                   (if truthy_str match_comment then match_comment else None)]"
              using update_trace by blast
            from tu(3) have tu3:
              "state_updates tu = [Http_patch sid AWAITING_USER_INFO_STATE_ID match_comment]"
              by simp
            from fetch inc d sid td search p tu(1) show thesis
              by (intro matched[OF fetch tf inc d td sid search[unfolded p] ts p(2) tu(1,2) tu3])
                 (simp_all add: cycle_run cycle_try_block_def seq_run)
          next
            case nf: False
            obtain ra ta where ask: "ask_openai e d s2 = (ra, ta, s2)"
              and ta: "all_from Generate ta"
              using ask_openai_trace by blast
            show thesis
            proof (cases ra)
              case (Inl x)
              note ask = ask[unfolded Inl]
              from fetch inc d sid td search nf ask show thesis
                by (intro generation_failed[OF fetch tf inc d td search ts nf ask ta])
                   (simp_all add: cycle_run cycle_try_block_def seq_run)
            next
              case (Inr content)
              note ask = ask[unfolded Inr]
              obtain rp tp s3 where pub:
                "create_pull_request e (branch_of e) ''generated_playbook.yml''
                   (format_playbook_content content) s2 = (rp, tp, s3)"
                and tp: "all_from Publish tp"
                using publish_trace by blast
              show thesis
              proof (cases rp)
                case (Inl x)
                note pub = pub[unfolded Inl]
                from fetch inc d sid td search nf ask pub show thesis
                  by (intro publish_raised[OF fetch tf inc d td search ts nf ask ta pub tp])
                     (simp_all add: cycle_run cycle_try_block_def seq_run)
              next
                case (Inr pr)
                note pub = pub[unfolded Inr]
                show thesis
                proof (cases "truthy pr")
                  case False
                  with fetch inc d sid td search nf ask pub show thesis
                    by (intro publish_absent[OF fetch tf inc d td search ts nf ask ta pub tp])
                       (simp_all add: cycle_run cycle_try_block_def seq_run)
                next
                  case tpr: True
                  show thesis
                  proof (cases "subscript_key pr ''html_url''")
                    case (Inl x)
                    with fetch inc d sid td search nf ask pub tpr show thesis
                      by (intro no_url[OF fetch tf inc d td search ts nf ask ta pub tp tpr])
                         (simp_all add: cycle_run cycle_try_block_def seq_run)
                  next
                    case (Inr url)
                    obtain tu where
                      tu: "update_incident_state e sid AWAITING_USER_INFO_STATE_ID None s3 =
                        (Inr (), tu, s3)" "all_from Update tu"
                        "state_updates tu = [Http_patch sid AWAITING_USER_INFO_STATE_ID
                           (if truthy_str None then None else None)]"
                      using update_trace by blast
                    from tu(3) have tu3:
                      "state_updates tu = [Http_patch sid AWAITING_USER_INFO_STATE_ID None]"
                      by simp
                    from fetch inc d sid td search nf ask pub tpr Inr tu(1) show thesis
                      by (intro generated[OF fetch tf inc d td sid search ts nf ask ta pub tp
                            tpr Inr tu(1,2) tu3])
                         (simp_all add: cycle_run cycle_try_block_def seq_run)
                  qed
                qed
              qed
            qed
          qed
        qed
      qed
    qed
  qed
qed

lemma matched_path_iff [simp]: "matched_path evs \<longleftrightarrow> Log_found_existing \<in> set evs"
  by (simp add: matched_path_def)

lemma generated_path_iff [simp]: "generated_path evs \<longleftrightarrow> list_ex is_pr_created evs"
  by (simp add: generated_path_def)


lemma process_incidents_step:
  "process_incidents (e # es) s =
     (outcome (process_incidents es (final_fs (cycle e s))),
      events (cycle e s) @ events (process_incidents es (final_fs (cycle e s))),
      final_fs (process_incidents es (final_fs (cycle e s))))"
  by (cases rule: cycle_cases[of e s]) (simp_all add: seq_run)

section \<open>State updates per cycle\<close>

text \<open>
  Claim C1. In every cycle of the loop the state update is issued at most once, along
  exactly one of two paths and never both: on the matched path (the loop logged that an
  existing playbook matches) the one update carries the comment that points to the
  catalog; on the generated path (the loop logged the pull request created) the one
  update carries no comment; on every other path there is no update.
\<close>

theorem cycle_one_update_one_path:
  "(matched_path (events (cycle e s)) \<and> \<not> generated_path (events (cycle e s)) \<and>
      (\<exists>sid. state_updates (events (cycle e s)) =
         [Http_patch sid AWAITING_USER_INFO_STATE_ID
            (Some (''Use the following playbook: '' @ EXISTING_PLAYBOOKS_REPO_URL))]))
   \<or> (generated_path (events (cycle e s)) \<and> \<not> matched_path (events (cycle e s)) \<and>
      (\<exists>sid. state_updates (events (cycle e s)) =
         [Http_patch sid AWAITING_USER_INFO_STATE_ID None]))
   \<or> (\<not> matched_path (events (cycle e s)) \<and> \<not> generated_path (events (cycle e s)) \<and>
      state_updates (events (cycle e s)) = [])"
proof (cases rule: cycle_cases[of e s])
  case idle
  then show ?thesis by (simp add: quiet)
next
  case malformed
  then show ?thesis by (simp add: quiet)
next
  case no_description
  then show ?thesis by (simp add: quiet)
next
  case search_failed
  then show ?thesis by (simp add: quiet)
next
  case matched
  then show ?thesis by (simp add: quiet)
next
  case generation_failed
  then show ?thesis by (simp add: quiet)
next
  case publish_raised
  then show ?thesis by (simp add: quiet)
next
  case publish_absent
  then show ?thesis by (simp add: quiet)
next
  case no_url
  then show ?thesis by (simp add: quiet)
next
  case generated
  then show ?thesis by (simp add: quiet)
qed

theorem cycle_one_update_one_path_witness:
  "matched_path (events (cycle matched_env fs0)) \<and>
   \<not> generated_path (events (cycle matched_env fs0)) \<and>
   length (state_updates (events (cycle matched_env fs0))) = 1"
proof -
  have "matched_path (events (cycle matched_env fs0))" by code_simp
  then show ?thesis
    using cycle_one_update_one_path [of matched_env fs0] by auto
qed

text \<open>
  What the two log lines stand for: on the matched path the search returned a playbook
  (the first one judged a match); on the generated path a draft was generated and the
  publish operation returned a value that is true in \<open>if pr_response:\<close>.
\<close>

lemma first_match_judged:
  "first_match chat d catalog = Inr (Some p) \<Longrightarrow>
   p \<in> set catalog \<and> judged_match chat d p = Inr True"
proof (induction catalog)
  case Nil
  then show ?case by simp
next
  case (Cons q rest)
  then show ?case
    by (cases "judged_match chat d q") (auto split: if_splits)
qed

lemma paths_meaning:
  "(matched_path (events (cycle e s)) \<longrightarrow>
      (\<exists>d s' p. outcome (search_existing_playbooks e d s') = Inr (Some p) \<and> p \<noteq> [])) \<and>
   (generated_path (events (cycle e s)) \<longrightarrow>
      (\<exists>d s' content s'' pr.
         outcome (ask_openai e d s') = Inr content \<and>
         outcome (create_pull_request e (''generated-playbook-'' @ now e)
           ''generated_playbook.yml'' (format_playbook_content content) s'') = Inr pr \<and>
         truthy pr))"
proof (cases rule: cycle_cases[of e s])
  case idle
  then show ?thesis by (simp add: quiet)
next
  case malformed
  then show ?thesis by (simp add: quiet)
next
  case no_description
  then show ?thesis by (simp add: quiet)
next
  case search_failed
  then show ?thesis by (simp add: quiet)
next
  case (matched inc tf d sid p ts s2 tu)
  have "outcome (search_existing_playbooks e d s) = Inr (Some p) \<and> p \<noteq> []"
    using matched by simp
  then have "\<exists>d s' p. outcome (search_existing_playbooks e d s') = Inr (Some p) \<and> p \<noteq> []"
    by blast
  with matched show ?thesis by (simp add: quiet)
next
  case generation_failed
  then show ?thesis by (simp add: quiet)
next
  case publish_raised
  then show ?thesis by (simp add: quiet)
next
  case publish_absent
  then show ?thesis by (simp add: quiet)
next
  case no_url
  then show ?thesis by (simp add: quiet)
next
  case (generated inc tf d sid found ts s2 content ta pr tp s3 url tu)
  have "outcome (ask_openai e d s2) = Inr content \<and>
         outcome (create_pull_request e (''generated-playbook-'' @ now e)
           ''generated_playbook.yml'' (format_playbook_content content) s2) = Inr pr \<and>
         truthy pr"
    using generated by simp
  then have "\<exists>d s' content s'' pr.
         outcome (ask_openai e d s') = Inr content \<and>
         outcome (create_pull_request e (''generated-playbook-'' @ now e)
           ''generated_playbook.yml'' (format_playbook_content content) s'') = Inr pr \<and>
         truthy pr"
    by blast
  with generated show ?thesis by (simp add: quiet)
qed

section \<open>The sleep between cycles\<close>

text \<open>
  Every way through a cycle ends with the sleep of five seconds, except the matched
  path, which has no sleep at all: it leaves the \<open>try\<close> block by \<open>continue\<close> right after
  the state update.
\<close>

lemma cycle_sleeps_unless_matched:
  "if Log_found_existing \<in> set (events (cycle e s))
   then \<forall>n. Sleep n \<notin> set (events (cycle e s))
   else last (events (cycle e s)) = Sleep 5"
proof (cases rule: cycle_cases[of e s])
  case idle
  then show ?thesis by (simp add: quiet)
next
  case malformed
  then show ?thesis by (simp add: quiet)
next
  case no_description
  then show ?thesis by (simp add: quiet)
next
  case search_failed
  then show ?thesis by (simp add: quiet)
next
  case matched
  then show ?thesis by (simp add: quiet)
next
  case generation_failed
  then show ?thesis by (simp add: quiet)
next
  case publish_raised
  then show ?thesis by (simp add: quiet)
next
  case publish_absent
  then show ?thesis by (simp add: quiet)
next
  case no_url
  then show ?thesis by (simp add: quiet)
next
  case generated
  then show ?thesis by (simp add: quiet)
qed

lemma cycle_returns: "outcome (cycle e s) = Inr ()"
  by (cases rule: cycle_cases[of e s]) simp_all

lemma process_incidents_returns: "outcome (process_incidents es s) = Inr ()"
proof (induction es arbitrary: s)
  case Nil
  then show ?case by simp
next
  case (Cons e es)
  have "outcome (process_incidents (e # es) s) =
      outcome (process_incidents es (final_fs (cycle e s)))"
    by (subst process_incidents_step) simp
  with Cons show ?case by simp
qed

text \<open>
  Claim C2 says that the loop sleeps the fixed interval between every two consecutive
  cycles, whatever the outcome of the first. The code does not on the matched path: with
  a catalog playbook that the classifier accepts, the second cycle starts right after
  the log lines of the state update, with no sleep in between (the cycle after it, which
  finds no incident, does sleep).
\<close>

theorem matched_cycle_skips_sleep:
  "events (process_incidents [matched_env, idle_env] fs0) =
     [Log_cycle_start, Log_sn_call, Log_sn_status 200,
      Log_sn_response (JArr [sample_incident]),
      Log_searching,
      Log_found_existing,
      Log_updating (JStr ''abc123'') AWAITING_USER_INFO_STATE_ID,
      Http_patch (JStr ''abc123'') AWAITING_USER_INFO_STATE_ID
        (Some (''Use the following playbook: '' @ EXISTING_PLAYBOOKS_REPO_URL)),
      Log_update_status 200,
      Log_update_ok,
      Log_cycle_start, Log_sn_call, Log_sn_status 200,
      Log_sn_response (JArr []),
      Log_no_incidents,
      Sleep 5]"
  by code_simp

section \<open>The formatter\<close>

text \<open>
  Claim C9. For every raw generated text, the formatted document begins with the
  document-start marker \<open>---\<close> and a newline, and no code-fence marker (three backticks,
  with or without \<open>yaml\<close>) occurs anywhere in it.
\<close>

theorem formatted_has_marker_and_no_fence:
  "prefix ''---\<newline>'' (format_playbook_content raw) \<and>
   \<not> sublist ''```'' (format_playbook_content raw) \<and>
   \<not> sublist ''```yaml'' (format_playbook_content raw)"
proof -
  have "\<not> sublist ''```'' (format_playbook_content raw)"
    unfolding format_playbook_content_def
    by (rule no_fence_marker) (rule no_fence_strip_fences)
  then show ?thesis
    using no_yaml_fence by (simp add: format_playbook_content_def)
qed

theorem formatted_has_marker_and_no_fence_witness:
  "prefix ''---\<newline>'' (format_playbook_content ''```yaml - hosts: all```'') \<and>
   \<not> sublist ''```'' (format_playbook_content ''```yaml - hosts: all```'') \<and>
   format_playbook_content ''```yaml - hosts: all```'' = ''---\<newline>- hosts: all''"
proof -
  have "format_playbook_content ''```yaml - hosts: all```'' = ''---\<newline>- hosts: all''"
    by code_simp
  then show ?thesis
    using formatted_has_marker_and_no_fence [of "''```yaml - hosts: all```''"] by simp
qed

text \<open>
  Claim C3, as stated: formatting the formatter's own output gives the same document as
  formatting once. It fails on the raw text \<open>a\<close>: the first pass gives the marker line
  followed by \<open>a\<close>, the second pass puts a second marker line in front.
\<close>

theorem format_not_idempotent:
  "format_playbook_content (format_playbook_content ''a'') = ''---\<newline>---\<newline>a'' \<and>
   format_playbook_content ''a'' = ''---\<newline>a'' \<and>
   format_playbook_content (format_playbook_content ''a'') \<noteq> format_playbook_content ''a''"
  by code_simp

text \<open>
  Claim C3, amended. Stripping the fences and trimming is idempotent, but the marker is
  put in front unconditionally: formatting the formatter's own output gives the marker
  line followed by that output (followed by \<open>---\<close> alone when the stripped text is empty),
  so it never gives the same document as formatting once.
\<close>

theorem format_twice_adds_marker:
  "strip_fences (strip_fences raw) = strip_fences raw \<and>
   format_playbook_content (format_playbook_content raw) =
     ''---\<newline>'' @ (if strip_fences raw = [] then ''---'' else format_playbook_content raw) \<and>
   format_playbook_content (format_playbook_content raw) \<noteq> format_playbook_content raw"
proof -
  have twice: "format_playbook_content (format_playbook_content raw) =
     ''---\<newline>'' @ (if strip_fences raw = [] then ''---'' else format_playbook_content raw)"
    by (rule format_twice)
  have "format_playbook_content (format_playbook_content raw) \<noteq> format_playbook_content raw"
  proof (cases "strip_fences raw = []")
    case True
    then show ?thesis by (simp add: twice) (simp add: format_playbook_content_def)
  next
    case False
    have "length (format_playbook_content (format_playbook_content raw)) =
        4 + length (format_playbook_content raw)"
      using False by (simp add: twice)
    then show ?thesis by auto
  qed
  with twice show ?thesis by (simp add: strip_fences_idem)
qed

theorem format_twice_adds_marker_witness:
  "strip_fences (strip_fences ''```yaml x ```'') = ''x'' \<and>
   format_playbook_content (format_playbook_content ''```yaml x ```'') = ''---\<newline>---\<newline>x''"
proof -
  have "strip_fences ''```yaml x ```'' = ''x''" by code_simp
  moreover have "format_playbook_content ''```yaml x ```'' = ''---\<newline>x''" by code_simp
  ultimately show ?thesis
    using format_twice_adds_marker [of "''```yaml x ```''"] by simp
qed

section \<open>The publish operation\<close>



section \<open>The search for an existing playbook\<close>


lemma first_match_hit:
  "judged_match chat d p = Inr True \<Longrightarrow> first_match chat d (p # rest) = Inr (Some p)"
  by (simp add: and_then_def)




section \<open>Failure of the draft generation\<close>

text \<open>
  Claim C6, as stated: draft generation fails when the provider returns an empty
  response, and the cycle is then aborted with no publish and no state update. It fails
  for a completion whose text is the empty string: \<open>ask_openai\<close> returns the empty
  string, the bare marker line is written and pushed, the pull request is created and the
  state update is issued.
\<close>

theorem empty_reply_is_published:
  "chat_generate empty_reply_env (JStr ''disk full on node7'') = Inr (completion []) \<and>
   first_choice_content (completion []) = Inr [] \<and>
   outcome (ask_openai empty_reply_env (JStr ''disk full on node7'') fs0) = Inr [] \<and>
   events (cycle empty_reply_env fs0) =
     [Log_cycle_start, Log_sn_call, Log_sn_status 200,
      Log_sn_response (JArr [sample_incident]),
      Log_searching,
      Log_generating (JStr ''disk full on node7''),
      Log_generated [],
      Log_cloning,
      Log_creating_branch ''generated-playbook-20240101120000'',
      Write_playbook ''generated_playbook.yml'' ''---\<newline>'',
      Git_push ''generated-playbook-20240101120000'',
      Log_creating_pr ''generated-playbook-20240101120000'',
      Http_post ''generated-playbook-20240101120000'',
      Log_pr_status 201,
      Log_pr_created (JStr ''https://example.org/pull/1''),
      Log_updating (JStr ''abc123'') AWAITING_USER_INFO_STATE_ID,
      Http_patch (JStr ''abc123'') AWAITING_USER_INFO_STATE_ID None,
      Log_update_status 200,
      Log_update_ok,
      Sleep 5]"
  by code_simp

text \<open>
  Claim C6, amended. Draft generation fails, with the exception of the failing step, when
  the provider call raises or when no text can be read from the response (no choice, a
  missing field, a content that is not a string); the cycle that asked for the draft is
  then aborted: the handler of the loop logs the exception, the publish operation is not
  entered and no state update is issued. A response whose text is empty is not a
  failure: \<open>ask_openai\<close> returns the empty string and the cycle goes on into the publish
  operation.
\<close>

theorem generation_failure_aborts_cycle:
  "((chat_generate e d = Inl x \<or> (chat_generate e d = Inr r \<and> first_choice_content r = Inl x))
      \<longrightarrow> outcome (ask_openai e d s) = Inl x \<and>
          (Log_generating d \<in> set (events (cycle e s)) \<longrightarrow>
             Log_cycle_error x \<in> set (events (cycle e s)) \<and>
             Log_cloning \<notin> set (events (cycle e s)) \<and>
             state_updates (events (cycle e s)) = [])) \<and>
   (chat_generate e d = Inr r \<and> first_choice_content r = Inr []
      \<longrightarrow> outcome (ask_openai e d s) = Inr [] \<and>
          (Log_generating d \<in> set (events (cycle e s)) \<longrightarrow>
             Log_cloning \<in> set (events (cycle e s))))"
proof -
  have ask: "ra = and_then (chat_generate e d) first_choice_content"
    if "ask_openai e d' s' = (ra, ta, s'')" "Log_generating d \<in> set ta" for d' s' ra ta s''
    using ask_openai_trace[of e d' s'] that by auto
  have cloning: "Log_cloning \<in> set tp"
    if "create_pull_request e b f c s' = (rp, tp, s3)" for b f c s' rp tp s3
    using publish_trace[of e b f c s'] that by auto
  have fails: "Log_cycle_error x \<in> set (events (cycle e s)) \<and>
             Log_cloning \<notin> set (events (cycle e s)) \<and>
             state_updates (events (cycle e s)) = []"
    if a: "and_then (chat_generate e d) first_choice_content = Inl x"
      and g: "Log_generating d \<in> set (events (cycle e s))"
  proof (cases rule: cycle_cases[of e s])
    case idle
    with g show ?thesis by (simp add: quiet)
  next
    case malformed
    with g show ?thesis by (simp add: quiet)
  next
    case no_description
    with g show ?thesis by (simp add: quiet)
  next
    case search_failed
    with g show ?thesis by (simp add: quiet)
  next
    case matched
    with g show ?thesis by (simp add: quiet)
  next
    case (generation_failed inc tf d' found ts s2 x' ta)
    with g have "Log_generating d \<in> set ta" by (simp add: quiet)
    from ask[OF generation_failed(9) this] a have "x' = x" by simp
    with generation_failed show ?thesis by (simp add: quiet)
  next
    case (publish_raised inc tf d' found ts s2 content ta x' tp s3)
    with g have "Log_generating d \<in> set ta" by (simp add: quiet)
    from ask[OF publish_raised(9) this] a show ?thesis by simp
  next
    case (publish_absent inc tf d' found ts s2 content ta pr tp s3)
    with g have "Log_generating d \<in> set ta" by (simp add: quiet)
    from ask[OF publish_absent(9) this] a show ?thesis by simp
  next
    case (no_url inc tf d' found ts s2 content ta pr tp s3 x')
    with g have "Log_generating d \<in> set ta" by (simp add: quiet)
    from ask[OF no_url(9) this] a show ?thesis by simp
  next
    case (generated inc tf d' sid found ts s2 content ta pr tp s3 url tu)
    with g have "Log_generating d \<in> set ta" by (simp add: quiet)
    from ask[OF generated(10) this] a show ?thesis by simp
  qed
  have goes_on: "Log_cloning \<in> set (events (cycle e s))"
    if a: "and_then (chat_generate e d) first_choice_content = Inr []"
      and g: "Log_generating d \<in> set (events (cycle e s))"
  proof (cases rule: cycle_cases[of e s])
    case idle
    with g show ?thesis by (simp add: quiet)
  next
    case malformed
    with g show ?thesis by (simp add: quiet)
  next
    case no_description
    with g show ?thesis by (simp add: quiet)
  next
    case search_failed
    with g show ?thesis by (simp add: quiet)
  next
    case matched
    with g show ?thesis by (simp add: quiet)
  next
    case (generation_failed inc tf d' found ts s2 x' ta)
    with g have "Log_generating d \<in> set ta" by (simp add: quiet)
    from ask[OF generation_failed(9) this] a show ?thesis by simp
  next
    case (publish_raised inc tf d' found ts s2 content ta x' tp s3)
    with cloning[OF publish_raised(11)] show ?thesis by simp
  next
    case (publish_absent inc tf d' found ts s2 content ta pr tp s3)
    with cloning[OF publish_absent(11)] show ?thesis by simp
  next
    case (no_url inc tf d' found ts s2 content ta pr tp s3 x')
    with cloning[OF no_url(11)] show ?thesis by simp
  next
    case (generated inc tf d' sid found ts s2 content ta pr tp s3 url tu)
    with cloning[OF generated(12)] show ?thesis by simp
  qed
  have out: "outcome (ask_openai e d s) = and_then (chat_generate e d) first_choice_content"
    using ask_openai_trace[of e d s] by auto
  show ?thesis
  proof (intro conjI impI)
    assume h: "chat_generate e d = Inl x \<or> (chat_generate e d = Inr r \<and> first_choice_content r = Inl x)"
    then have a: "and_then (chat_generate e d) first_choice_content = Inl x" by auto
    then show "outcome (ask_openai e d s) = Inl x" by (simp add: out)
    assume "Log_generating d \<in> set (events (cycle e s))"
    with fails[OF a] show "Log_cycle_error x \<in> set (events (cycle e s))"
      "Log_cloning \<notin> set (events (cycle e s))" "state_updates (events (cycle e s)) = []"
      by simp_all
  next
    assume h: "chat_generate e d = Inr r \<and> first_choice_content r = Inr []"
    then have a: "and_then (chat_generate e d) first_choice_content = Inr []" by auto
    then show "outcome (ask_openai e d s) = Inr []" by (simp add: out)
    assume "Log_generating d \<in> set (events (cycle e s))"
    with goes_on[OF a] show "Log_cloning \<in> set (events (cycle e s))" by simp
  qed
qed

theorem generation_failure_aborts_cycle_witness:
  "outcome (ask_openai provider_down_env (JStr ''disk full on node7'') fs0) = Inl OpenAIError \<and>
   Log_cycle_error OpenAIError \<in> set (events (cycle provider_down_env fs0)) \<and>
   Log_cloning \<notin> set (events (cycle provider_down_env fs0)) \<and>
   state_updates (events (cycle provider_down_env fs0)) = [] \<and>
   outcome (ask_openai empty_reply_env (JStr ''disk full on node7'') fs0) = Inr [] \<and>
   Log_cloning \<in> set (events (cycle empty_reply_env fs0))"
proof -
  have d: "chat_generate provider_down_env (JStr ''disk full on node7'') = Inl OpenAIError"
    by code_simp
  have g: "Log_generating (JStr ''disk full on node7'') \<in> set (events (cycle provider_down_env fs0))"
    by code_simp
  have d': "chat_generate empty_reply_env (JStr ''disk full on node7'') = Inr (completion [])"
    by code_simp
  have f': "first_choice_content (completion []) = Inr []" by code_simp
  have g': "Log_generating (JStr ''disk full on node7'') \<in> set (events (cycle empty_reply_env fs0))"
    by code_simp
  show ?thesis
    using generation_failure_aborts_cycle [where e = provider_down_env
        and d = "JStr ''disk full on node7''" and x = OpenAIError and r = "completion []"
        and s = fs0]
      generation_failure_aborts_cycle [where e = empty_reply_env
        and d = "JStr ''disk full on node7''" and x = OpenAIError and r = "completion []"
        and s = fs0]
      d g d' f' g' by simp
qed

section \<open>A pull request that is not created\<close>



section \<open>Failure of the incident fetch\<close>

text \<open>
  Claim C8. When the GET to the ticketing backend fails at the network level (the call
  raises anything but \<open>HTTPError\<close>) the fetch logs it as an other error, and when the
  backend answers with an error status (4xx or 5xx, for which \<open>raise_for_status\<close>
  raises) the fetch logs it as an HTTP error; in both cases the fetch returns \<open>None\<close>,
  the cycle is skipped (no state update, no error reaches the handler of the loop), the
  loop sleeps and goes on with the next cycle.
\<close>

theorem fetch_failure_skips_cycle:
  "(sn_get e = Inl x \<and> x \<noteq> HTTPError \<longrightarrow>
      get_most_recent_incident e s = (Inr JNull, [Log_sn_call, Log_other_error x], s)) \<and>
   (sn_get e = Inr r \<and> 400 \<le> status_code r \<and> status_code r < 600 \<longrightarrow>
      get_most_recent_incident e s =
        (Inr JNull, [Log_sn_call, Log_sn_status (status_code r), Log_http_error HTTPError], s)) \<and>
   ((sn_get e = Inl x \<and> x \<noteq> HTTPError) \<or>
    (sn_get e = Inr r \<and> 400 \<le> status_code r \<and> status_code r < 600) \<longrightarrow>
      cycle e s =
        (Inr (), Log_cycle_start # events (get_most_recent_incident e s) @
                 [Log_no_incidents, Sleep 5], s) \<and>
      state_updates (events (cycle e s)) = [] \<and>
      \<not> list_ex is_cycle_error (events (cycle e s)) \<and>
      process_incidents (e # es) s =
        (outcome (process_incidents es s),
         events (cycle e s) @ events (process_incidents es s),
         final_fs (process_incidents es s)))"
proof -
  have net: "get_most_recent_incident e s = (Inr JNull, [Log_sn_call, Log_other_error x], s)"
    if "sn_get e = Inl x" "x \<noteq> HTTPError"
    using that by (simp add: get_most_recent_incident_def try_except_def)
  have status: "get_most_recent_incident e s =
        (Inr JNull, [Log_sn_call, Log_sn_status (status_code r), Log_http_error HTTPError], s)"
    if "sn_get e = Inr r" "400 \<le> status_code r" "status_code r < 600"
    using that by (simp add: get_most_recent_incident_def try_except_def raise_for_status_def)
  have skip: "cycle e s =
        (Inr (), Log_cycle_start # events (get_most_recent_incident e s) @
                 [Log_no_incidents, Sleep 5], s) \<and>
      state_updates (events (cycle e s)) = [] \<and>
      \<not> list_ex is_cycle_error (events (cycle e s)) \<and>
      process_incidents (e # es) s =
        (outcome (process_incidents es s),
         events (cycle e s) @ events (process_incidents es s),
         final_fs (process_incidents es s))"
    if f: "get_most_recent_incident e s = (Inr JNull, tf, s)" for tf
  proof -
    have c: "cycle e s = (Inr (), Log_cycle_start # tf @ [Log_no_incidents, Sleep 5], s)"
      using f by (simp add: cycle_run cycle_try_block_def seq_run)
    have "all_from Fetch tf" using fetch_trace[of e s] f by simp
    then show ?thesis
      using c f by (simp add: seq_run quiet)
  qed
  show ?thesis using net status skip by auto
qed

theorem fetch_failure_skips_cycle_witness:
  "events (cycle network_down_env fs0) =
     [Log_cycle_start, Log_sn_call, Log_other_error ConnectionError, Log_no_incidents, Sleep 5] \<and>
   events (cycle backend_500_env fs0) =
     [Log_cycle_start, Log_sn_call, Log_sn_status 500, Log_http_error HTTPError,
      Log_no_incidents, Sleep 5] \<and>
   events (process_incidents [backend_500_env, idle_env] fs0) =
     events (cycle backend_500_env fs0) @ events (process_incidents [idle_env] fs0)"
proof -
  have n: "sn_get network_down_env = Inl ConnectionError \<and> ConnectionError \<noteq> HTTPError"
    by code_simp
  have b: "sn_get backend_500_env = Inr (response 500 (JObj [])) \<and>
      400 \<le> status_code (response 500 (JObj [])) \<and> status_code (response 500 (JObj [])) < 600"
    by code_simp
  have s: "status_code (response 500 (JObj [])) = 500" by code_simp
  show ?thesis
    using fetch_failure_skips_cycle [where e = network_down_env and x = ConnectionError
        and r = "response 500 (JObj [])" and s = fs0 and es = "[]"]
      fetch_failure_skips_cycle [where e = backend_500_env and x = ConnectionError
        and r = "response 500 (JObj [])" and s = fs0 and es = "[idle_env]"]
      n b s by simp
qed

section \<open>A pull request created without a link\<close>




end
